theory Spec2Isabelle
  imports Main "HOL-Library.Word"
begin

unbundle bit_operations_syntax

section \<open>Machine types\<close>

text \<open>
  \<open>uint8_t\<close>, \<open>uint32_t\<close> and the 64-bit \<open>context_t\<close> and \<open>size_t\<close> are words of
  that width; arithmetic on them wraps. A C++ \<open>int\<close> is a 32-bit word read through
  \<open>sint\<close>. A \<open>std::vector\<close> is a list, \<open>push_back\<close> appends at its end.
\<close>

type_synonym uint8_t = "8 word"
type_synonym uint32_t = "32 word"
type_synonym int32_t = "32 word"
type_synonym size_t = "64 word"

definition push_back :: "'a list \<Rightarrow> 'a \<Rightarrow> 'a list" where
  "push_back v x = v @ [x]"

section \<open>Parameters (\<open>struct CParams\<close>)\<close>

datatype work_mode_t = none | compress | decompress

datatype file_type = VCF | BCF

record CParams =
  work_mode :: work_mode_t
  vcf_file_name :: string
  db_file_name :: string
  sample_file_name :: string
  id_sample :: string
  store_sample_header :: bool
  out_type :: file_type
  bcf_compression_level :: char
  extra_variants :: bool
  neglect_limit :: uint32_t
  no_threads :: uint32_t

text \<open>
  The default constructor. Its argument is the object's storage before the constructor
  runs: the scalar members hold whatever was there, the \<open>std::string\<close> members are
  default-constructed (empty) before the body. The body is the source's sequence of
  assignments, in the source's order; \<open>no_threads\<close> is assigned twice.
\<close>

definition CParams_new :: "CParams \<Rightarrow> CParams" where
  "CParams_new storage =
     (let this = storage\<lparr>vcf_file_name := [], db_file_name := [],
                         sample_file_name := [], id_sample := []\<rparr>;
          this = this\<lparr>work_mode := none\<rparr>;
          this = this\<lparr>no_threads := 1\<rparr>;
          this = this\<lparr>store_sample_header := False\<rparr>;
          this = this\<lparr>out_type := VCF\<rparr>;
          this = this\<lparr>bcf_compression_level := CHR ''1''\<rparr>;
          this = this\<lparr>extra_variants := False\<rparr>;
          this = this\<lparr>no_threads := 8\<rparr>;
          this = this\<lparr>neglect_limit := 10\<rparr>
      in this)"

text \<open>
  \<open>store_params\<close> pushes the four characters and then \<open>(uint8_t) neglect_limit\<close>, the
  low byte of the 32-bit field.
\<close>

definition store_params :: "CParams \<Rightarrow> uint8_t list \<Rightarrow> uint8_t list" where
  "store_params this v_params =
     (let v = push_back v_params (of_char CHR ''G'');
          v = push_back v (of_char CHR ''T'');
          v = push_back v (of_char CHR ''S'');
          v = push_back v (of_char CHR ''1'');
          v = push_back v (ucast (neglect_limit this))
      in v)"

text \<open>
  \<open>load_params\<close> returns its boolean result together with the object after the call.
  The size test comes first, so every index read below is in range.
\<close>

definition load_params :: "CParams \<Rightarrow> uint8_t list \<Rightarrow> bool \<times> CParams" where
  "load_params this v_params =
     (if length v_params \<noteq> 5 then (False, this)
      else if v_params ! 0 \<noteq> of_char CHR ''G'' then (False, this)
      else if v_params ! 1 \<noteq> of_char CHR ''T'' then (False, this)
      else if v_params ! 2 \<noteq> of_char CHR ''S'' then (False, this)
      else if v_params ! 3 \<noteq> of_char CHR ''1'' then (False, this)
      else (True, this\<lparr>neglect_limit := ucast (v_params ! 4)\<rparr>))"

section \<open>Constants of \<open>class CCompressedFile\<close>\<close>

text \<open>
  \<open>8 << 20\<close> and \<open>256 << 20\<close> are shifts of \<open>int\<close> literals (no bit reaches the sign),
  converted to \<open>uint32_t\<close>. \<open>1u << 30\<close> is a shift of an \<open>unsigned int\<close>, widened to
  \<open>size_t\<close>.
\<close>

definition max_buffer_size :: uint32_t where
  "max_buffer_size = ucast (push_bit 20 (8 :: int32_t))"

definition max_buffer_gt_size :: uint32_t where
  "max_buffer_gt_size = ucast (push_bit 20 (256 :: int32_t))"

definition max_buffer_db_size :: uint32_t where
  "max_buffer_db_size = ucast (push_bit 20 (8 :: int32_t))"

definition pp_compress_flag :: size_t where
  "pp_compress_flag = ucast (push_bit 30 (1 :: uint32_t))"

text \<open>
  Modelled from the spec: the type \<open>context_t\<close> is declared in \<open>defs.h\<close>, which is not
  among the sources; the spec calls a context a 64-bit tag. The initialisers are
  shifts of \<open>unsigned long long\<close> literals.
\<close>

type_synonym context_t = "64 word"

definition context_symbol_flag :: context_t where
  "context_symbol_flag = push_bit 60 1"

definition context_symbol_mask :: context_t where
  "context_symbol_mask = 0xffff"

definition context_prefix_mask :: context_t where
  "context_prefix_mask = 0xfffff"

definition context_prefix_flag :: context_t where
  "context_prefix_flag = push_bit 60 2"

definition context_suffix_flag :: context_t where
  "context_suffix_flag = push_bit 60 3"

definition context_large_value1_flag :: context_t where
  "context_large_value1_flag = push_bit 60 4"

definition context_large_value2_flag :: context_t where
  "context_large_value2_flag = push_bit 60 5"

definition context_large_value3_flag :: context_t where
  "context_large_value3_flag = push_bit 60 6"

section \<open>The registering queue (\<open>queue.h\<close>)\<close>

text \<open>
  \<open>CRegisteringQueue<T>\<close>: a \<open>std::queue\<close> over a \<open>deque\<close> (here a list whose head is
  the front), the flag \<open>is_completed\<close>, the \<open>int\<close> counter \<open>n_producers\<close> and the
  \<open>uint32_t\<close> counter \<open>n_elements\<close>. Every member function holds the mutex for its
  whole body, so each call is one atomic step on this state; the notifications on
  \<open>cv_queue_empty\<close> wake waiting threads and change no member.
\<close>

record 'a CRegisteringQueue =
  q :: "'a list"
  is_completed :: bool
  n_producers :: int32_t
  n_elements :: uint32_t

definition q_push :: "'a \<Rightarrow> 'a list \<Rightarrow> 'a list" where
  "q_push x qq = qq @ [x]"

text \<open>\<open>Restart\<close> resets the three scalar members and leaves \<open>q\<close> as it is.\<close>

definition Restart :: "int32_t \<Rightarrow> 'a CRegisteringQueue \<Rightarrow> 'a CRegisteringQueue" where
  "Restart n this = this\<lparr>is_completed := False, n_producers := n, n_elements := 0\<rparr>"

text \<open>
  The constructor: \<open>q\<close> is default-constructed (empty), the scalar members hold what the
  storage held, then the body calls \<open>Restart\<close>.
\<close>

definition CRegisteringQueue_new ::
    "'a CRegisteringQueue \<Rightarrow> int32_t \<Rightarrow> 'a CRegisteringQueue" where
  "CRegisteringQueue_new storage n = Restart n (storage\<lparr>q := []\<rparr>)"

text \<open>A storage whose scalar members are all zero, for the constructed queues of the examples.\<close>

abbreviation zeroed :: "'a CRegisteringQueue" where
  "zeroed \<equiv> \<lparr>q = [], is_completed = False, n_producers = 0, n_elements = 0\<rparr>"

definition IsEmpty :: "'a CRegisteringQueue \<Rightarrow> bool" where
  "IsEmpty this = (n_elements this = 0)"

definition IsCompleted :: "'a CRegisteringQueue \<Rightarrow> bool" where
  "IsCompleted this = (n_elements this = 0 \<and> n_producers this = 0)"

text \<open>
  \<open>n_producers--\<close> on an \<open>int\<close>: decrementing \<open>INT_MIN\<close> is undefined behaviour in C++,
  here the result \<open>None\<close>.
\<close>

definition MarkCompleted :: "'a CRegisteringQueue \<Rightarrow> 'a CRegisteringQueue option" where
  "MarkCompleted this =
     (if sint (n_producers this) = - (2 ^ 31) then None
      else Some (this\<lparr>n_producers := n_producers this - 1\<rparr>))"

definition Push :: "'a \<Rightarrow> 'a CRegisteringQueue \<Rightarrow> 'a CRegisteringQueue" where
  "Push data this =
     (let this = this\<lparr>q := q_push data (q this)\<rparr>;
          this = this\<lparr>n_elements := n_elements this + 1\<rparr>
      in this)"

definition Emplace :: "'a \<Rightarrow> 'a CRegisteringQueue \<Rightarrow> 'a CRegisteringQueue" where
  "Emplace data this = Push data this"

text \<open>
  \<open>n_elements += data.size()\<close>: the sum is formed in \<open>size_t\<close> and converted back to
  \<open>uint32_t\<close>.
\<close>

definition PushRange :: "'a list \<Rightarrow> 'a CRegisteringQueue \<Rightarrow> 'a CRegisteringQueue" where
  "PushRange data this =
     (let this = this\<lparr>q := fold q_push data (q this)\<rparr>;
          this = this\<lparr>n_elements :=
                   ucast ((ucast (n_elements this) :: size_t) + of_nat (length data))\<rparr>
      in this)"

text \<open>
  \<open>Pop(T &data)\<close>. The wait on the condition variable lets the call proceed only in a
  state where \<open>q\<close> is non-empty or \<open>n_producers\<close> is zero; in any other state the call
  stays blocked and changes nothing (\<open>Blocks\<close>). A call that proceeds returns its boolean
  result, the value of the reference parameter after the call, and the new state.
  \<open>q.front()\<close> on an empty \<open>q\<close> is undefined behaviour.
\<close>

datatype 'a Pop_outcome =
    Blocks
  | Undefined_behaviour
  | Returns bool 'a "'a CRegisteringQueue"

definition Pop :: "'a \<Rightarrow> 'a CRegisteringQueue \<Rightarrow> 'a Pop_outcome" where
  "Pop data this =
     (if \<not> (q this \<noteq> [] \<or> n_producers this = 0) then Blocks
      else if n_elements this = 0 then Returns False data this
      else (case q this of
              [] \<Rightarrow> Undefined_behaviour
            | x # rest \<Rightarrow>
                Returns True x (this\<lparr>q := rest, n_elements := n_elements this - 1\<rparr>)))"

definition GetSize :: "'a CRegisteringQueue \<Rightarrow> uint32_t" where
  "GetSize this = n_elements this"

subsection \<open>Call traces\<close>

text \<open>
  The states reachable from a \<open>Restart\<close> of a queue whose \<open>q\<close> is empty (the constructor
  is such a call) by \<open>Push\<close>, \<open>PushRange\<close>, returning calls of \<open>Pop\<close> and defined calls of
  \<open>MarkCompleted\<close>.
\<close>

inductive reachable :: "'a CRegisteringQueue \<Rightarrow> bool" where
  restart: "q s0 = [] \<Longrightarrow> reachable (Restart n s0)"
| push: "reachable s \<Longrightarrow> reachable (Push x s)"
| push_range: "reachable s \<Longrightarrow> reachable (PushRange xs s)"
| pop: "reachable s \<Longrightarrow> Pop d s = Returns b d' s' \<Longrightarrow> reachable s'"
| mark_completed: "reachable s \<Longrightarrow> MarkCompleted s = Some s' \<Longrightarrow> reachable s'"

text \<open>
  A single-threaded run of \<open>k\<close> calls of \<open>Pop\<close>: the elements handed out, in the order of
  the calls. The run ends at the first call that returns false or blocks (no other thread
  can change the state any more).
\<close>

fun Pop_many :: "nat \<Rightarrow> 'a \<Rightarrow> 'a CRegisteringQueue \<Rightarrow> 'a list" where
  "Pop_many 0 d s = []"
| "Pop_many (Suc k) d s =
     (case Pop d s of
        Returns True x s' \<Rightarrow> x # Pop_many k x s'
      | _ \<Rightarrow> [])"

section \<open>The parameter blob\<close>

lemma store_params_eq:
  "store_params p v = v @ [71, 84, 83, 49, ucast (neglect_limit p)]"
  by (simp add: store_params_def push_back_def)

lemma mod_256_id_iff: "(n mod 256 = (n::nat)) = (n < 256)"
  by (metis mod_less mod_less_divisor zero_less_numeral)

lemma unat_low_byte: "unat (ucast (w :: uint32_t) :: uint8_t) = unat w mod 256"
  by (simp add: unsigned_ucast_eq take_bit_eq_mod)

lemma unat_widen_byte: "unat (ucast (b :: uint8_t) :: uint32_t) = unat b"
proof -
  have "unat b < 2 ^ 8"
    using unsigned_less [of b] by simp
  then have "unat b < 2 ^ 32"
    by simp
  then show ?thesis
    by (simp add: unsigned_ucast_eq take_bit_eq_mod)
qed

lemma low_byte_roundtrip:
  "(ucast (ucast (w :: uint32_t) :: uint8_t) :: uint32_t) = w \<longleftrightarrow> unat w < 256"
  by (simp only: word_unat_eq_iff unat_widen_byte unat_low_byte mod_256_id_iff)

text \<open>
  C1. For every \<open>CParams\<close> value and every output vector, \<open>store_params\<close> appends
  exactly five bytes: \<open>G\<close>, \<open>T\<close>, \<open>S\<close>, \<open>1\<close> (71, 84, 83, 49) and one byte holding
  \<open>neglect_limit\<close> (its low eight bits).
\<close>

theorem store_params_appends_blob:
  "store_params p v =
     v @ [of_char CHR ''G'', of_char CHR ''T'', of_char CHR ''S'', of_char CHR ''1'',
          ucast (neglect_limit p)]
   \<and> length (store_params p v) = length v + 5
   \<and> take 4 (drop (length v) (store_params p v)) = [71, 84, 83, 49]
   \<and> unat (store_params p v ! (length v + 4)) = unat (neglect_limit p) mod 256"
  by (simp add: store_params_eq unat_low_byte nth_append)

text \<open>
  C2. \<open>load_params\<close> returns true if and only if the vector has exactly five bytes and
  the first four are \<open>G\<close>, \<open>T\<close>, \<open>S\<close>, \<open>1\<close>; when it returns false the object, and so its
  \<open>neglect_limit\<close>, is unchanged.
\<close>

theorem load_params_accepts_iff:
  "(fst (load_params p v) \<longleftrightarrow>
      (length v = 5 \<and> v ! 0 = of_char CHR ''G'' \<and> v ! 1 = of_char CHR ''T''
        \<and> v ! 2 = of_char CHR ''S'' \<and> v ! 3 = of_char CHR ''1''))
   \<and> (\<not> fst (load_params p v) \<longrightarrow>
        snd (load_params p v) = p
        \<and> neglect_limit (snd (load_params p v)) = neglect_limit p)"
  by (simp add: load_params_def)

theorem load_params_accepts_iff_witness:
  "\<not> fst (load_params (CParams_new (CParams.make none [] [] [] [] False VCF CHR ''0'' False 0 0))
           [71, 84, 83, 50, 7])
   \<and> neglect_limit (snd (load_params
        (CParams_new (CParams.make none [] [] [] [] False VCF CHR ''0'' False 0 0))
        [71, 84, 83, 50, 7])) = 10"
  using load_params_accepts_iff
    [of "CParams_new (CParams.make none [] [] [] [] False VCF CHR ''0'' False 0 0)"
        "[71, 84, 83, 50, 7]"]
  by (simp add: CParams_new_def CParams.make_def)

text \<open>
  C3. Storing into an empty vector and loading the result (into any object \<open>p'\<close>)
  returns true and sets \<open>neglect_limit\<close> to the stored value modulo 256; the stored
  \<open>neglect_limit\<close> comes back exactly if and only if it is below 256.
\<close>

theorem store_load_roundtrip:
  "fst (load_params p' (store_params p []))
   \<and> snd (load_params p' (store_params p [])) =
       p'\<lparr>neglect_limit := ucast (ucast (neglect_limit p) :: uint8_t)\<rparr>
   \<and> unat (neglect_limit (snd (load_params p' (store_params p [])))) =
       unat (neglect_limit p) mod 256
   \<and> (neglect_limit (snd (load_params p' (store_params p []))) = neglect_limit p
        \<longleftrightarrow> unat (neglect_limit p) < 256)"
  using low_byte_roundtrip [of "neglect_limit p"]
  by (simp add: store_params_eq load_params_def unat_widen_byte unat_low_byte)

section \<open>Defaults and constants\<close>

text \<open>
  C7. After default construction \<open>no_threads\<close> is 8 (the later of its two assignments)
  and \<open>work_mode\<close> is \<open>none\<close>, whatever the storage held before.
\<close>

theorem default_no_threads_and_work_mode:
  "no_threads (CParams_new storage) = 8
   \<and> unat (no_threads (CParams_new storage)) = 8
   \<and> work_mode (CParams_new storage) = none"
  by (simp add: CParams_new_def)

text \<open>
  C8. The flush thresholds are 8 MiB for ordinary field streams, 256 MiB for the
  genotype stream and 8 MiB for database streams.
\<close>

theorem buffer_thresholds:
  "unat max_buffer_size = 8 * 2 ^ 20
   \<and> unat max_buffer_gt_size = 256 * 2 ^ 20
   \<and> unat max_buffer_db_size = 8 * 2 ^ 20"
  by (simp add: max_buffer_size_def max_buffer_gt_size_def max_buffer_db_size_def)

text \<open>
  C10. The six context type flags are pairwise distinct 64-bit constants; each has its
  low 60 bits zero and a non-zero top nibble (1 to 6 in bits 60 to 63).
\<close>

theorem context_flags_top_nibble:
  "distinct [context_symbol_flag, context_prefix_flag, context_suffix_flag,
             context_large_value1_flag, context_large_value2_flag, context_large_value3_flag]
   \<and> take_bit 60 context_symbol_flag = 0 \<and> drop_bit 60 context_symbol_flag = 1
   \<and> take_bit 60 context_prefix_flag = 0 \<and> drop_bit 60 context_prefix_flag = 2
   \<and> take_bit 60 context_suffix_flag = 0 \<and> drop_bit 60 context_suffix_flag = 3
   \<and> take_bit 60 context_large_value1_flag = 0 \<and> drop_bit 60 context_large_value1_flag = 4
   \<and> take_bit 60 context_large_value2_flag = 0 \<and> drop_bit 60 context_large_value2_flag = 5
   \<and> take_bit 60 context_large_value3_flag = 0 \<and> drop_bit 60 context_large_value3_flag = 6"
  by (simp add: context_symbol_flag_def context_prefix_flag_def context_suffix_flag_def
      context_large_value1_flag_def context_large_value2_flag_def
      context_large_value3_flag_def)

subsection \<open>The text-preprocessing marker\<close>

lemma below_flag_clear:
  fixes s :: uint32_t
  assumes "unat s < 2 ^ 30"
  shows "s AND 2 ^ 30 = 0"
proof -
  have "s < 2 ^ 30"
    using assms by (simp add: word_less_nat_alt)
  then have "s AND mask 30 = s"
    by (rule less_mask_eq)
  then have "s AND 2 ^ 30 = (s AND mask 30) AND 2 ^ 30"
    by simp
  also have "\<dots> = s AND (mask 30 AND 2 ^ 30)"
    by (simp only: and.assoc)
  also have "mask 30 AND (2 ^ 30 :: uint32_t) = 0"
    by (simp add: mask_eq_exp_minus_1)
  finally show ?thesis
    by simp
qed

lemma flag_set_then_cleared:
  fixes s :: uint32_t
  assumes "unat s < 2 ^ 30"
  shows "(s OR 2 ^ 30) AND NOT (2 ^ 30) = s"
proof -
  have z: "s AND 2 ^ 30 = 0"
    using assms by (rule below_flag_clear)
  have "(s OR 2 ^ 30) AND NOT (2 ^ 30) = (s AND NOT (2 ^ 30)) OR (2 ^ 30 AND NOT (2 ^ 30))"
    by (rule word_ao_dist)
  also have "\<dots> = (s AND 2 ^ 30) OR (s AND NOT (2 ^ 30))"
    using z by simp
  also have "\<dots> = s AND (2 ^ 30 OR NOT (2 ^ 30))"
    by (simp only: bit.conj_disj_distrib)
  also have "\<dots> = s"
    by simp
  finally show ?thesis .
qed

lemma flag_set_adds:
  fixes s :: uint32_t
  assumes "unat s < 2 ^ 30"
  shows "unat (s OR 2 ^ 30) = unat s + 2 ^ 30"
proof -
  have eq: "s + 2 ^ 30 = s OR 2 ^ 30"
    using below_flag_clear [OF assms] by (rule disjunctive_add_eq_or)
  have "unat s + unat (2 ^ 30 :: uint32_t) < 2 ^ LENGTH(32)"
    using assms by simp
  then have sum: "unat (s + 2 ^ 30) = unat s + unat (2 ^ 30 :: uint32_t)"
    by (simp only: unat_add_lem)
  have "unat (s OR 2 ^ 30) = unat (s + 2 ^ 30)"
    by (simp only: eq)
  also have "\<dots> = unat s + unat (2 ^ 30 :: uint32_t)"
    by (rule sum)
  also have "unat (2 ^ 30 :: uint32_t) = 2 ^ 30"
    by simp
  finally show ?thesis .
qed

text \<open>
  C9. \<open>pp_compress_flag\<close> is \<open>1 << 30\<close>, that is \<open>2 ^ 30\<close> = 1024 * 1024 * 1024 (1 GiB),
  a single bit of a 32-bit size word. Every size below 1 GiB has that bit clear, so
  setting the flag adds exactly \<open>2 ^ 30\<close> and clearing it gives the size back; the size
  \<open>2 ^ 30\<close> itself already has the bit set, so 1 GiB is the cap.
\<close>

theorem pp_compress_flag_one_GiB:
  "pp_compress_flag = 2 ^ 30
   \<and> unat pp_compress_flag = 1024 * 1024 * 1024
   \<and> (ucast pp_compress_flag :: uint32_t) = push_bit 30 1
   \<and> (unat (s :: uint32_t) < 2 ^ 30 \<longrightarrow>
        s AND ucast pp_compress_flag = 0
        \<and> unat (s OR ucast pp_compress_flag) = unat s + 2 ^ 30
        \<and> (s OR ucast pp_compress_flag) AND NOT (ucast pp_compress_flag) = s)
   \<and> (2 ^ 30 :: uint32_t) AND ucast pp_compress_flag \<noteq> 0"
proof -
  have f: "(ucast pp_compress_flag :: uint32_t) = 2 ^ 30"
    by (simp add: pp_compress_flag_def)
  have v: "pp_compress_flag = 2 ^ 30" "unat pp_compress_flag = 1024 * 1024 * 1024"
    by (simp_all add: pp_compress_flag_def)
  show ?thesis
  proof (intro conjI impI)
    show "pp_compress_flag = 2 ^ 30"
      by (rule v)
    show "unat pp_compress_flag = 1024 * 1024 * 1024"
      by (rule v)
    show "(ucast pp_compress_flag :: uint32_t) = push_bit 30 1"
      by (simp add: f)
    show "(2 ^ 30 :: uint32_t) AND ucast pp_compress_flag \<noteq> 0"
      by (simp add: f)
  next
    assume below: "unat s < 2 ^ 30"
    show "s AND ucast pp_compress_flag = 0"
      unfolding f using below by (rule below_flag_clear)
    show "unat (s OR ucast pp_compress_flag) = unat s + 2 ^ 30"
      unfolding f using below by (rule flag_set_adds)
    show "(s OR ucast pp_compress_flag) AND NOT (ucast pp_compress_flag) = s"
      unfolding f using below by (rule flag_set_then_cleared)
  qed
qed

theorem pp_compress_flag_one_GiB_witness:
  "unat (1000 :: uint32_t) < 2 ^ 30
   \<and> (1000 :: uint32_t) AND ucast pp_compress_flag = 0
   \<and> unat ((1000 :: uint32_t) OR ucast pp_compress_flag) = 1000 + 2 ^ 30
   \<and> ((1000 :: uint32_t) OR ucast pp_compress_flag) AND NOT (ucast pp_compress_flag) = 1000"
  using pp_compress_flag_one_GiB [of 1000]
  by simp

section \<open>The registering queue\<close>

subsection \<open>Effect of each operation on the members\<close>

lemma fold_q_push: "fold q_push xs qq = qq @ xs"
  by (induction xs arbitrary: qq) (simp_all add: q_push_def)

lemma trunc_sum:
  "((a + k mod 2 ^ 64) mod 2 ^ 64) mod 2 ^ 32 = (a + k mod 2 ^ 32) mod (2 ^ 32 :: nat)"
proof -
  have d: "(2 ^ 32 :: nat) dvd 2 ^ 64"
    by (rule le_imp_power_dvd) simp
  have "((a + k mod 2 ^ 64) mod 2 ^ 64) mod 2 ^ 32 = ((a + k) mod 2 ^ 64) mod (2 ^ 32 :: nat)"
    by (simp only: mod_add_right_eq)
  also have "\<dots> = (a + k) mod 2 ^ 32"
    using d by (rule mod_mod_cancel)
  also have "\<dots> = (a + k mod 2 ^ 32) mod 2 ^ 32"
    by (simp only: mod_add_right_eq)
  finally show ?thesis .
qed

lemma unat_widen_u32: "unat (ucast (n :: uint32_t) :: size_t) = unat n"
proof -
  have "unat n < 2 ^ 32"
    using unsigned_less [of n] by simp
  then have "unat n < 2 ^ 64"
    by simp
  then show ?thesis
    by (simp add: unsigned_ucast_eq take_bit_eq_mod)
qed

lemma unat_narrow_size_t: "unat (ucast (x :: size_t) :: uint32_t) = unat x mod 2 ^ 32"
  by (simp add: unsigned_ucast_eq take_bit_eq_mod)

text \<open>The detour of \<open>+=\<close> through \<open>size_t\<close> is addition modulo \<open>2 ^ 32\<close>.\<close>

lemma add_size_t:
  "(ucast ((ucast (n :: uint32_t) :: size_t) + of_nat k) :: uint32_t) = n + of_nat k"
proof -
  have "unat (ucast ((ucast n :: size_t) + of_nat k) :: uint32_t)
        = ((unat n + k mod 2 ^ 64) mod 2 ^ 64) mod 2 ^ 32"
    by (simp only: unat_narrow_size_t unat_word_ariths unat_widen_u32 unat_of_nat
        len_of_numeral_defs) simp
  also have "\<dots> = (unat n + k mod 2 ^ 32) mod 2 ^ 32"
    by (rule trunc_sum)
  also have "\<dots> = unat (n + of_nat k)"
    by (simp add: unat_word_ariths unat_of_nat)
  finally show ?thesis
    by (simp only: word_unat_eq_iff)
qed

lemma Restart_fields:
  "q (Restart n s) = q s" "n_elements (Restart n s) = 0"
  "n_producers (Restart n s) = n" "is_completed (Restart n s) = False"
  by (simp_all add: Restart_def)

lemma new_fields:
  "q (CRegisteringQueue_new st n) = []" "n_elements (CRegisteringQueue_new st n) = 0"
  "n_producers (CRegisteringQueue_new st n) = n"
  "is_completed (CRegisteringQueue_new st n) = False"
  by (simp_all add: CRegisteringQueue_new_def Restart_def)

lemma Push_fields:
  "q (Push x s) = q s @ [x]" "n_elements (Push x s) = n_elements s + 1"
  "n_producers (Push x s) = n_producers s" "is_completed (Push x s) = is_completed s"
  by (simp_all add: Push_def q_push_def)

lemma PushRange_fields:
  "q (PushRange xs s) = q s @ xs"
  "n_elements (PushRange xs s) = n_elements s + of_nat (length xs)"
  "n_producers (PushRange xs s) = n_producers s"
  "is_completed (PushRange xs s) = is_completed s"
  by (simp_all add: PushRange_def fold_q_push add_size_t)

lemma fold_Push_fields:
  "q (fold Push xs s) = q s @ xs"
  "n_elements (fold Push xs s) = n_elements s + of_nat (length xs)"
  "n_producers (fold Push xs s) = n_producers s"
  by (induction xs arbitrary: s) (simp_all add: Push_fields)

lemma Pop_Returns_cases:
  assumes "Pop d s = Returns b d' s'"
  shows "(\<not> b \<and> d' = d \<and> s' = s \<and> n_elements s = 0)
         \<or> (b \<and> n_elements s \<noteq> 0 \<and> q s = d' # q s' \<and> n_elements s' = n_elements s - 1
              \<and> n_producers s' = n_producers s \<and> is_completed s' = is_completed s)"
  using assms by (auto simp: Pop_def split: if_splits list.splits)

lemma unat_pred:
  fixes n :: uint32_t
  assumes "n \<noteq> 0"
  shows "Suc (unat (n - 1)) = unat n"
  using assms by (simp add: unat_minus_one unat_gt_0)

lemma of_nat_mod_u32: "(of_nat (m mod 2 ^ 32) :: uint32_t) = of_nat m"
  by (simp add: word_unat_eq_iff unat_of_nat)

lemma of_nat_u32_eq_0:
  assumes "m < 2 ^ 32"
  shows "(of_nat m :: uint32_t) = 0 \<longleftrightarrow> m = 0"
proof -
  have "unat (of_nat m :: uint32_t) = m"
    using assms by (simp add: unat_of_nat)
  then show ?thesis
    by (metis unat_0 word_unat_eq_iff)
qed

subsection \<open>The result of \<open>Pop\<close>\<close>

text \<open>
  C4. In a state where \<open>IsEmpty\<close> (the counter \<open>n_elements\<close> is zero) agrees with \<open>q\<close> being
  empty, \<open>Pop\<close> returns false exactly when the queue is empty and \<open>n_producers\<close> is 0
  (with the queue empty and \<open>n_producers\<close> non-zero it blocks); whenever the queue is
  non-empty it returns true, yields the front element, removes it and decrements
  \<open>n_elements\<close> by one.
\<close>

theorem Pop_when_counter_agrees:
  assumes "IsEmpty s = (q s = [])"
  shows "((\<exists>d' s'. Pop d s = Returns False d' s') \<longleftrightarrow> (q s = [] \<and> n_producers s = 0))
    \<and> (q s = [] \<and> n_producers s = 0 \<longrightarrow> Pop d s = Returns False d s)
    \<and> (q s = [] \<and> n_producers s \<noteq> 0 \<longrightarrow> Pop d s = Blocks)
    \<and> (q s \<noteq> [] \<longrightarrow>
          Pop d s = Returns True (hd (q s)) (s\<lparr>q := tl (q s), n_elements := n_elements s - 1\<rparr>)
          \<and> Suc (unat (n_elements s - 1)) = unat (n_elements s)
          \<and> Suc (length (tl (q s))) = length (q s))"
proof (cases "q s")
  case Nil
  with assms show ?thesis
    by (simp add: Pop_def IsEmpty_def)
next
  case (Cons x rest)
  with assms have nz: "n_elements s \<noteq> 0"
    by (simp add: IsEmpty_def)
  from Cons nz unat_pred [OF nz] show ?thesis
    by (simp add: Pop_def)
qed

text \<open>
  Three runs of the theorem: a queue holding the single element 5 with one producer
  (true, 5), a newly constructed queue with no producer (false), and a newly constructed
  queue with one producer (blocked).
\<close>

theorem Pop_when_counter_agrees_witness:
  "(IsEmpty (Push (5 :: nat) (CRegisteringQueue_new zeroed 1))
     = (q (Push (5 :: nat) (CRegisteringQueue_new zeroed 1)) = []))
   \<and> Pop 0 (Push (5 :: nat) (CRegisteringQueue_new zeroed 1))
       = Returns True 5 \<lparr>q = [], is_completed = False, n_producers = 1, n_elements = 0\<rparr>
   \<and> (IsEmpty (CRegisteringQueue_new (zeroed :: nat CRegisteringQueue) 0)
     = (q (CRegisteringQueue_new (zeroed :: nat CRegisteringQueue) 0) = []))
   \<and> Pop 0 (CRegisteringQueue_new (zeroed :: nat CRegisteringQueue) 0)
       = Returns False 0 \<lparr>q = [], is_completed = False, n_producers = 0, n_elements = 0\<rparr>
   \<and> (IsEmpty (CRegisteringQueue_new (zeroed :: nat CRegisteringQueue) 1)
     = (q (CRegisteringQueue_new (zeroed :: nat CRegisteringQueue) 1) = []))
   \<and> Pop 0 (CRegisteringQueue_new (zeroed :: nat CRegisteringQueue) 1) = Blocks"
proof -
  let ?a = "Push (5 :: nat) (CRegisteringQueue_new zeroed 1)"
  let ?b = "CRegisteringQueue_new (zeroed :: nat CRegisteringQueue) 0"
  let ?c = "CRegisteringQueue_new (zeroed :: nat CRegisteringQueue) 1"
  have a: "IsEmpty ?a = (q ?a = [])"
    by (simp add: IsEmpty_def Push_fields new_fields)
  have b: "IsEmpty ?b = (q ?b = [])"
    by (simp add: IsEmpty_def new_fields)
  have c: "IsEmpty ?c = (q ?c = [])"
    by (simp add: IsEmpty_def new_fields)
  from Pop_when_counter_agrees [OF a, of 0] Pop_when_counter_agrees [OF b, of 0]
    Pop_when_counter_agrees [OF c, of 0] a b c
  show ?thesis
    by (simp add: Push_def q_push_def CRegisteringQueue_new_def Restart_def)
qed

text \<open>
  Without that condition the statement fails. After \<open>PushRange\<close> of a vector of \<open>2 ^ 32\<close>
  elements into a new queue with one producer, \<open>q\<close> is non-empty and \<open>n_producers\<close> is 1,
  but \<open>n_elements\<close> has wrapped to 0 and \<open>Pop\<close> returns false.
\<close>

theorem Pop_false_on_nonempty_counterexample:
  "q (PushRange (replicate 4294967296 (0 :: nat)) (CRegisteringQueue_new zeroed 1)) \<noteq> []
   \<and> n_producers (PushRange (replicate 4294967296 (0 :: nat)) (CRegisteringQueue_new zeroed 1))
       = 1
   \<and> Pop 7 (PushRange (replicate 4294967296 (0 :: nat)) (CRegisteringQueue_new zeroed 1))
       = Returns False 7
           (PushRange (replicate 4294967296 (0 :: nat)) (CRegisteringQueue_new zeroed 1))"
  by (simp add: Pop_def PushRange_fields new_fields)

subsection \<open>First in, first out\<close>

lemma Pop_many_prefix:
  assumes "n_elements s = of_nat m" "m \<le> length (q s)" "m < 2 ^ 32"
  shows "Pop_many k d s = take (min k m) (q s)"
  using assms
proof (induction k arbitrary: s m d)
  case 0
  show ?case
    by simp
next
  case (Suc k)
  show ?case
  proof (cases "m = 0")
    case True
    with Suc.prems have "n_elements s = 0"
      by simp
    then have "Pop d s = Blocks \<or> Pop d s = Returns False d s"
      by (simp add: Pop_def)
    then show ?thesis
      using True by auto
  next
    case False
    then obtain m' where m: "m = Suc m'"
      by (cases m) auto
    with Suc.prems obtain x rest where qs: "q s = x # rest"
      by (cases "q s") auto
    have nz: "n_elements s \<noteq> 0"
      using Suc.prems False by (simp add: of_nat_u32_eq_0)
    let ?s' = "s\<lparr>q := rest, n_elements := n_elements s - 1\<rparr>"
    have popped: "Pop d s = Returns True x ?s'"
      using qs nz by (simp add: Pop_def)
    have "Pop_many k x ?s' = take (min k m') (q ?s')"
    proof (rule Suc.IH)
      show "n_elements ?s' = of_nat m'"
        using Suc.prems(1) m by simp
      show "m' \<le> length (q ?s')"
        using Suc.prems(2) m qs by simp
      show "m' < 2 ^ 32"
        using Suc.prems(3) m by simp
    qed
    then show ?thesis
      using popped qs m by simp
  qed
qed

lemma Pop_many_after_Push:
  "Pop_many k d (fold Push xs (CRegisteringQueue_new st n)) =
     take (min k (length xs mod 2 ^ 32)) xs"
proof -
  let ?s = "fold Push xs (CRegisteringQueue_new st n)"
  have "Pop_many k d ?s = take (min k (length xs mod 2 ^ 32)) (q ?s)"
  proof (rule Pop_many_prefix)
    show "n_elements ?s = of_nat (length xs mod 2 ^ 32)"
      by (simp only: of_nat_mod_u32) (simp add: fold_Push_fields new_fields)
    show "length xs mod 2 ^ 32 \<le> length (q ?s)"
      by (simp add: fold_Push_fields new_fields)
    show "length xs mod 2 ^ 32 < (2 ^ 32 :: nat)"
      by simp
  qed
  then show ?thesis
    by (simp add: fold_Push_fields new_fields)
qed

text \<open>
  C5. First in, first out, up to the range of the counter: after fewer than \<open>2 ^ 32\<close> calls
  \<open>Push x\<^sub>1\<close>, ..., \<open>Push x\<^sub>n\<close> on a new queue, a single-threaded run of \<open>k\<close> calls of \<open>Pop\<close>
  hands out the first \<open>k\<close> pushed elements in the order of the pushes, and \<open>n\<close> calls hand
  out all of them. For any number \<open>n\<close> of pushes the run hands out, in the order of the
  pushes, the first \<open>min k (n mod 2 ^ 32)\<close> elements and no more.
\<close>

theorem Pop_order_is_Push_order:
  "Pop_many k d (fold Push xs (CRegisteringQueue_new st n)) =
     take (min k (length xs mod 2 ^ 32)) xs
   \<and> (length xs < 2 ^ 32 \<longrightarrow>
        Pop_many k d (fold Push xs (CRegisteringQueue_new st n)) = take k xs
        \<and> Pop_many (length xs) d (fold Push xs (CRegisteringQueue_new st n)) = xs)"
  by (simp add: Pop_many_after_Push min_def)

theorem Pop_order_is_Push_order_witness:
  "length [10, 20, 30 :: nat] < 2 ^ 32
   \<and> Pop_many 2 0 (fold Push [10, 20, 30 :: nat] (CRegisteringQueue_new zeroed 1)) = [10, 20]
   \<and> Pop_many (length [10, 20, 30 :: nat]) 0
        (fold Push [10, 20, 30 :: nat] (CRegisteringQueue_new zeroed 1)) = [10, 20, 30]"
  using Pop_order_is_Push_order [of 2 0 "[10, 20, 30 :: nat]" zeroed 1]
  by (simp del: Pop_many.simps)

text \<open>
  For any sequence of pushes the statement fails: after \<open>2 ^ 32\<close> calls of \<open>Push\<close> on a new
  queue \<open>n_elements\<close> has wrapped to 0, the first \<open>Pop\<close> returns false with \<open>q\<close> full, and no
  run of \<open>Pop\<close> calls hands out any of the pushed elements.
\<close>

theorem Pop_refuses_after_wrap_counterexample:
  "replicate 4294967296 (0 :: nat) \<noteq> []
   \<and> Pop 7 (fold Push (replicate 4294967296 (0 :: nat)) (CRegisteringQueue_new zeroed 1))
       = Returns False 7
           (fold Push (replicate 4294967296 (0 :: nat)) (CRegisteringQueue_new zeroed 1))
   \<and> Pop_many 1 7 (fold Push (replicate 4294967296 (0 :: nat)) (CRegisteringQueue_new zeroed 1))
       = []
   \<and> Pop_many 4294967296 7
         (fold Push (replicate 4294967296 (0 :: nat)) (CRegisteringQueue_new zeroed 1))
       = []"
proof (intro conjI)
  show "replicate 4294967296 (0 :: nat) \<noteq> []"
    by simp
  show "Pop 7 (fold Push (replicate 4294967296 (0 :: nat)) (CRegisteringQueue_new zeroed 1))
       = Returns False 7
           (fold Push (replicate 4294967296 (0 :: nat)) (CRegisteringQueue_new zeroed 1))"
    by (simp add: Pop_def fold_Push_fields new_fields del: fold_replicate)
  show "Pop_many 1 7 (fold Push (replicate 4294967296 (0 :: nat)) (CRegisteringQueue_new zeroed 1))
       = []"
    by (simp only: Pop_many_after_Push) simp
  show "Pop_many 4294967296 7
         (fold Push (replicate 4294967296 (0 :: nat)) (CRegisteringQueue_new zeroed 1))
       = []"
    by (simp only: Pop_many_after_Push) simp
qed

subsection \<open>The element counter\<close>

lemma counter_invariant:
  assumes "reachable s"
  shows "n_elements s = of_nat (length (q s))"
  using assms
proof (induction rule: reachable.induct)
  case (restart s0 n)
  then show ?case
    by (simp add: Restart_fields)
next
  case (push s x)
  then show ?case
    by (simp add: Push_fields)
next
  case (push_range s xs)
  then show ?case
    by (simp add: PushRange_fields)
next
  case (pop s d b d' s')
  from Pop_Returns_cases [OF pop.hyps(2)] pop.IH show ?case
    by auto
next
  case (mark_completed s s')
  then show ?case
    by (auto simp: MarkCompleted_def split: if_splits)
qed

lemma reachable_new: "reachable (CRegisteringQueue_new st n)"
  unfolding CRegisteringQueue_new_def by (rule reachable.restart) simp

text \<open>
  C6. In every state reachable from a \<open>Restart\<close> of a queue with empty \<open>q\<close> (as in the
  constructor) by \<open>Push\<close>, \<open>PushRange\<close>, \<open>Pop\<close> and \<open>MarkCompleted\<close>, the counter
  \<open>n_elements\<close> equals the number of elements of \<open>q\<close> modulo \<open>2 ^ 32\<close>, and equals it
  whenever \<open>q\<close> holds fewer than \<open>2 ^ 32\<close> elements. \<open>Push\<close> adds one to both, \<open>PushRange\<close>
  adds \<open>data.size()\<close> to both and a \<open>Pop\<close> that returns true removes one from both, the
  counter counting modulo \<open>2 ^ 32\<close>.
\<close>

theorem counter_tracks_queue:
  assumes "reachable s"
  shows "n_elements s = of_nat (length (q s))
    \<and> unat (n_elements s) = length (q s) mod 2 ^ 32
    \<and> (length (q s) < 2 ^ 32 \<longrightarrow> unat (n_elements s) = length (q s))
    \<and> n_elements (Push x s) = n_elements s + 1
    \<and> length (q (Push x s)) = length (q s) + 1
    \<and> n_elements (PushRange xs s) = n_elements s + of_nat (length xs)
    \<and> length (q (PushRange xs s)) = length (q s) + length xs
    \<and> (Pop d s = Returns True d' s' \<longrightarrow>
          n_elements s' = n_elements s - 1 \<and> Suc (length (q s')) = length (q s))"
proof -
  have "Pop d s = Returns True d' s' \<longrightarrow>
          n_elements s' = n_elements s - 1 \<and> Suc (length (q s')) = length (q s)"
    using Pop_Returns_cases [of d s True d' s'] by auto
  then show ?thesis
    using counter_invariant [OF assms]
    by (simp add: unat_of_nat Push_fields PushRange_fields)
qed

theorem counter_tracks_queue_witness:
  "reachable (Push (5 :: nat) (CRegisteringQueue_new zeroed 1))
   \<and> length (q (Push (5 :: nat) (CRegisteringQueue_new zeroed 1))) < 2 ^ 32
   \<and> unat (n_elements (Push (5 :: nat) (CRegisteringQueue_new zeroed 1))) = 1
   \<and> length (q (Push (5 :: nat) (CRegisteringQueue_new zeroed 1))) = 1
   \<and> Pop 0 (Push (5 :: nat) (CRegisteringQueue_new zeroed 1))
       = Returns True 5 \<lparr>q = [], is_completed = False, n_producers = 1, n_elements = 0\<rparr>
   \<and> n_elements \<lparr>q = [] :: nat list, is_completed = False, n_producers = 1, n_elements = 0\<rparr>
       = n_elements (Push (5 :: nat) (CRegisteringQueue_new zeroed 1)) - 1"
proof -
  let ?s = "Push (5 :: nat) (CRegisteringQueue_new zeroed 1)"
  let ?s' = "\<lparr>q = [] :: nat list, is_completed = False, n_producers = 1, n_elements = 0\<rparr>"
  have r: "reachable ?s"
    by (intro reachable.push reachable_new)
  have l: "length (q ?s) = 1"
    by (simp add: Push_fields new_fields)
  have p: "Pop 0 ?s = Returns True 5 ?s'"
    by (simp add: Pop_def Push_def q_push_def CRegisteringQueue_new_def Restart_def)
  from counter_tracks_queue [OF r, of _ _ 0 5 ?s'] l r p show ?thesis
    by simp
qed

text \<open>
  The counter and the queue part at \<open>2 ^ 32\<close> elements: \<open>PushRange\<close> of a vector of
  \<open>2 ^ 32\<close> elements into a new queue leaves \<open>2 ^ 32\<close> elements in \<open>q\<close> and \<open>n_elements\<close> at 0.
\<close>

theorem counter_wraps_counterexample:
  "reachable (PushRange (replicate 4294967296 (0 :: nat)) (CRegisteringQueue_new zeroed 1))
   \<and> length (q (PushRange (replicate 4294967296 (0 :: nat)) (CRegisteringQueue_new zeroed 1)))
      = 4294967296
   \<and> unat (n_elements
        (PushRange (replicate 4294967296 (0 :: nat)) (CRegisteringQueue_new zeroed 1))) = 0"
proof (intro conjI)
  show "reachable (PushRange (replicate 4294967296 (0 :: nat)) (CRegisteringQueue_new zeroed 1))"
    by (intro reachable.push_range reachable_new)
qed (simp_all add: PushRange_fields new_fields)

end
